theory Spec2Isabelle
  imports Complex_Main "HOL-Library.Multiset" "HOL-Library.Log_Nat"
begin

section \<open>The shopping bill engine of shopping_list.js\<close>

text \<open>
  The engine folds a basket of SKUs into a bill (a JavaScript \<open>Map\<close> from SKU to
  \<open>BillItem\<close>), prices every line with a multi-buy discount and sums the prices.
  The HTML rendering is not modelled.

  Modelling decisions:
  \<^item> The constructor functions \<open>Item\<close>, \<open>Discount\<close> and \<open>BillItem\<close> are records with
    a constructor definition of the same name. The method \<open>price\<close> of a \<open>BillItem\<close>
    is a function of the record, since it reads the fields at the time of the call.
  \<^item> SKUs, quantities, prices and amounts are JavaScript numbers holding integers: an
    \<open>int\<close> stands for the double of that value. The arithmetic of the pricing functions
    and of the total is IEEE-754 double arithmetic, the exact result rounded to the
    nearest double with ties to even (\<open>to_double\<close> for integer results, \<open>js_div\<close> for
    quotients); it is exact as long as the values stay below \<open>2 ^ 53\<close> in magnitude.
    A result that is not finite is \<open>None\<close> of an \<open>int option\<close>: a division by zero gives
    \<open>Infinity\<close>, \<open>-Infinity\<close> or \<open>NaN\<close>, a result beyond the largest double gives
    \<open>Infinity\<close> or \<open>-Infinity\<close>, and every later \<open>*\<close>, \<open>-\<close> and \<open>+\<close> of this program
    keeps such a value non-finite.
  \<^item> The quantity of a bill line counts occurrences in a JavaScript array, whose length
    is below \<open>2 ^ 32\<close>, so the sum \<open>1 + qty\<close> of \<open>updateQty\<close> is exact.
  \<^item> A JavaScript \<open>Map\<close> is an association list in insertion order: \<open>set\<close> on a key
    already present replaces the value in place, \<open>set\<close> on a new key appends. The
    stock list, the discount table and the bill hold objects only; \<open>get\<close> on such a
    map returns \<open>undefined\<close> (here \<open>None\<close>) exactly for the keys the map does not have.
    \<open>genericMapGet\<close> takes any map: there a stored value is a JavaScript value, of type
    \<open>'v option\<close> with \<open>None\<close> for a stored \<open>undefined\<close>, and \<open>objects\<close> views a map of
    objects as such a map.
  \<^item> A parameter or local variable whose name is also a field name carries a prime
    (\<open>item'\<close>, \<open>discount'\<close>, \<open>qty'\<close>, \<open>unitPrice'\<close>).
  \<^item> The global variables \<open>stockList\<close> and \<open>discountedSkus\<close> that \<open>readItem\<close> and
    \<open>readDiscount\<close> consult are explicit parameters \<open>stock\<close> and \<open>discounts\<close> of
    the functions that read them; the tables of the source are the constants
    \<open>stockList\<close> and \<open>discountedSkus\<close>.
\<close>

subsection \<open>Data\<close>

record Item =
  desc :: string
  unitPrice :: int

record Discount =
  qty :: int
  amount :: int

record BillItem =
  qty :: int
  item :: Item
  discount :: Discount

definition Item :: "string \<Rightarrow> int \<Rightarrow> Item" where
  "Item d u = \<lparr>desc = d, unitPrice = u\<rparr>"

definition Discount :: "int \<Rightarrow> int \<Rightarrow> Discount" where
  "Discount q a = \<lparr>Discount.qty = q, amount = a\<rparr>"

definition BillItem :: "int \<Rightarrow> Item \<Rightarrow> Discount \<Rightarrow> BillItem" where
  "BillItem q i d = \<lparr>BillItem.qty = q, item = i, discount = d\<rparr>"

definition UNKNOWN_SKU_TXT :: string where
  "UNKNOWN_SKU_TXT = ''Unknown SKU''"

definition UNKNOWN_SKU :: Item where
  "UNKNOWN_SKU = Item UNKNOWN_SKU_TXT 0"

definition NO_DISCOUNT :: Discount where
  "NO_DISCOUNT = Discount 1 0"

subsection \<open>JavaScript maps\<close>

type_synonym ('k, 'v) js_map = "('k \<times> 'v) list"

text \<open>\<open>m.get(k)\<close>; \<open>None\<close> is \<open>undefined\<close>.\<close>

definition map_get :: "('k, 'v) js_map \<Rightarrow> 'k \<Rightarrow> 'v option" where
  "map_get m k = map_of m k"

text \<open>\<open>m.set(k, v)\<close>, returning the map.\<close>

fun map_set :: "('k, 'v) js_map \<Rightarrow> 'k \<Rightarrow> 'v \<Rightarrow> ('k, 'v) js_map" where
  "map_set [] k v = [(k, v)]"
| "map_set ((k', v') # m) k v =
     (if k' = k then (k, v) # m else (k', v') # map_set m k v)"

text \<open>\<open>Array.from(m.values())\<close> and \<open>new Map(entries)\<close>.\<close>

definition map_values :: "('k, 'v) js_map \<Rightarrow> 'v list" where
  "map_values m = map snd m"

definition map_keys :: "('k, 'v) js_map \<Rightarrow> 'k list" where
  "map_keys m = map fst m"

definition new_Map :: "('k \<times> 'v) list \<Rightarrow> ('k, 'v) js_map" where
  "new_Map entries = foldl (\<lambda>m (k, v). map_set m k v) [] entries"

text \<open>
  Maps of arbitrary JavaScript values: \<open>map_get_value m k\<close> is what \<open>m.get(k)\<close> returns,
  \<open>undefined\<close> (\<open>None\<close>) for a key the map does not have and for a key that stores
  \<open>undefined\<close>.
\<close>

definition map_get_value :: "('k, 'v option) js_map \<Rightarrow> 'k \<Rightarrow> 'v option" where
  "map_get_value m k = (case map_of m k of None \<Rightarrow> None | Some v \<Rightarrow> v)"

definition objects :: "('k, 'v) js_map \<Rightarrow> ('k, 'v option) js_map" where
  "objects m = map (\<lambda>(k, v). (k, Some v)) m"

subsection \<open>JavaScript numbers\<close>

text \<open>
  \<open>round_half_even n d\<close> is the integer nearest to \<open>n / d\<close> for \<open>d > 0\<close>, the even one of
  two that are equally near. \<open>to_double n\<close> is the double nearest to the integer \<open>n\<close>:
  \<open>n\<close> itself up to 53 bits, otherwise \<open>n\<close> rounded to 53 significant bits, and
  \<open>None\<close> (an infinity) from \<open>2 ^ 1024\<close> on.

  \<open>binary_exponent a b\<close> is the \<open>e\<close> with \<open>2 ^ e \<le> a / b < 2 ^ (e + 1)\<close> for positive
  \<open>a\<close> and \<open>b\<close>. \<open>js_div x y\<close> is the double \<open>x / y\<close>, given as a pair \<open>(m, k)\<close> that
  stands for \<open>m * 2 ^ k\<close>: the quotient rounded to 53 significant bits (to a multiple of
  \<open>2 ^ - 1074\<close> in the subnormal range); it is \<open>None\<close> (not finite) for \<open>y = 0\<close>. The
  quotient of two doubles with \<open>\<bar>y\<bar> \<ge> 1\<close> does not overflow. \<open>Math_floor\<close> is
  \<open>Math.floor\<close> on such a double.
\<close>

definition round_half_even :: "int \<Rightarrow> int \<Rightarrow> int" where
  "round_half_even n d =
     (let f = n div d; r = n mod d
      in if 2 * r < d then f else if d < 2 * r then f + 1
         else if even f then f else f + 1)"

definition to_double :: "int \<Rightarrow> int option" where
  "to_double n =
     (let k = bitlen \<bar>n\<bar> - 53
      in if k \<le> 0 then Some n
         else (let r = round_half_even n (2 ^ nat k) * 2 ^ nat k
               in if 2 ^ 1024 \<le> \<bar>r\<bar> then None else Some r))"

definition binary_exponent :: "int \<Rightarrow> int \<Rightarrow> int" where
  "binary_exponent a b =
     (let d = bitlen a - bitlen b
      in if 0 \<le> d then (if b * 2 ^ nat d \<le> a then d else d - 1)
         else (if b \<le> a * 2 ^ nat (- d) then d else d - 1))"

definition js_div :: "int \<Rightarrow> int \<Rightarrow> (int \<times> int) option" where
  "js_div x y =
     (if y = 0 then None
      else if x = 0 then Some (0, 0)
      else (let a = \<bar>x\<bar>; b = \<bar>y\<bar>;
                k = max (binary_exponent a b) (- 1022) - 52;
                m = (if 0 \<le> k then round_half_even a (b * 2 ^ nat k)
                     else round_half_even (a * 2 ^ nat (- k)) b)
            in Some (sgn x * sgn y * m, k)))"

definition Math_floor :: "int \<times> int \<Rightarrow> int" where
  "Math_floor v = (case v of (m, k) \<Rightarrow> if 0 \<le> k then m * 2 ^ nat k else m div 2 ^ nat (- k))"

subsection \<open>The tables of the source\<close>

definition stockList :: "(int, Item) js_map" where
  "stockList = new_Map
    [( 670, Item ''Apples (pack of 5)'' 194),
     (5243, Item ''Bananas (1kg)'' 268),
     (3317, Item ''Oranges (pack of 5)'' 150),
     (5712, Item ''Pineapple'' 259),
     (8903, Item ''Mango'' 75),
     ( 643, Item ''Potatoes (2.5kg)'' 198),
     (  57, Item ''Tomatoes (1kg)'' 199),
     (  56, Item ''Onions (pack of 4)'' 83),
     (1094, Item ''Lettuce'' 49),
     (2275, Item ''Rice (1kg)'' 148),
     (6034, Item ''Pasta (1kg)'' 120),
     (5907, Item ''Bread (800g loaf)'' 145),
     (3111, Item ''Pizza (350g)'' 260),
     ( 554, Item ''Beef Mince (500g)'' 199),
     (1373, Item ''Chicken Breast (pack of 2)'' 300),
     (6564, Item ''Salmon Fillets (pack of 2)'' 323),
     (7102, Item ''Pasta Sauce (500g jar)'' 184),
     (5079, Item ''Curry Sauce (500g jar)'' 184),
     (6386, Item ''Cheese (250g)'' 174),
     ( 347, Item ''Butter (250g)'' 152),
     (1019, Item ''Plain Yoghurt (500g)'' 94),
     (9190, Item ''Milk (568ml / 1 pint)'' 68),
     (6487, Item ''Milk (2.27L / 4 pints)'' 219),
     (4705, Item ''Fresh Orange Juice (1L)'' 169),
     (3263, Item ''Cola (2L)'' 99),
     (6469, Item ''Beer (pack of 4 bottles)'' 400),
     (5671, Item ''Red wine (70cl bottle)'' 750),
     (4719, Item ''Fish Fingers (500g)'' 335),
     (5643, Item ''Soap Powder'' 500),
     (1234, Item ''Dry Sherry, 1lt'' 1010)]"

definition basket :: "int list" where
  "basket = [670, 3317, 643, 1234, 5907, 6034, 670, 1234, 5671, 7102, 7102, 1094,
             1373, 7102, 5671, 6469]"

definition discountedSkus :: "(int, Discount) js_map" where
  "discountedSkus = new_Map
    [(1234, Discount 2 250),
     (5671, Discount 2 125),
     (7102, Discount 3 50)]"

subsection \<open>Lookup with a default\<close>

text \<open>
  \<open>(v => (v === undefined) ? notThereValue : v)(someMap.get(theThing))\<close>: the test is on
  the value that \<open>get\<close> returns, so a key that stores \<open>undefined\<close> gives the fallback
  value as well.
\<close>

definition genericMapGet :: "('k, 'v option) js_map \<Rightarrow> 'v option \<Rightarrow> 'k \<Rightarrow> 'v option" where
  "genericMapGet someMap notThereValue theThing =
     (let v = map_get_value someMap theThing
      in if v = None then notThereValue else v)"

text \<open>
  The stock list and the discount table hold objects and the fallback values are
  objects, so the lookup returns an object (lemma \<open>genericMapGet_objects\<close>); the case of an
  \<open>undefined\<close> result in \<open>readItem\<close> and \<open>readDiscount\<close> does not occur.
\<close>

definition readItem :: "(int, Item) js_map \<Rightarrow> int \<Rightarrow> Item" where
  "readItem stock sku =
     (case genericMapGet (objects stock) (Some UNKNOWN_SKU) sku of
        Some item' \<Rightarrow> item' | None \<Rightarrow> UNKNOWN_SKU)"

definition readDiscount :: "(int, Discount) js_map \<Rightarrow> int \<Rightarrow> Discount" where
  "readDiscount discounts sku =
     (case genericMapGet (objects discounts) (Some NO_DISCOUNT) sku of
        Some discount' \<Rightarrow> discount' | None \<Rightarrow> NO_DISCOUNT)"

subsection \<open>Aggregation of the basket\<close>

definition updateQty :: "(int, BillItem) js_map \<Rightarrow> int \<Rightarrow> int" where
  "updateQty bill sku =
     1 + (case map_get bill sku of None \<Rightarrow> 0 | Some billItem \<Rightarrow> BillItem.qty billItem)"

definition addItemToBill ::
  "(int, Item) js_map \<Rightarrow> (int, Discount) js_map \<Rightarrow>
   (int, BillItem) js_map \<Rightarrow> int \<Rightarrow> (int, BillItem) js_map" where
  "addItemToBill stock discounts acc sku =
     (let newQty = updateQty acc sku;
          item' = readItem stock sku;
          discount' = readDiscount discounts sku
      in if desc item' = UNKNOWN_SKU_TXT then acc
         else map_set acc sku (BillItem newQty item' discount'))"

subsection \<open>Pricing\<close>

text \<open>
  \<open>Math.floor(itemQty / discountQty) * discountAmt\<close>: the quotient is a double, its floor
  is multiplied by the amount and the product is rounded to a double. With
  \<open>discountQty = 0\<close> the result is not finite.
\<close>

definition calcDiscount :: "int \<Rightarrow> int \<Rightarrow> int \<Rightarrow> int option" where
  "calcDiscount itemQty discountQty discountAmt =
     (case js_div itemQty discountQty of
        None \<Rightarrow> None
      | Some ratio \<Rightarrow> to_double (Math_floor ratio * discountAmt))"

text \<open>\<open>(itemQty * unitPrice) - discount\<close>, each operation rounded to a double.\<close>

definition calcAmount :: "int \<Rightarrow> int \<Rightarrow> int option \<Rightarrow> int option" where
  "calcAmount itemQty unitPrice' discount' =
     (case to_double (itemQty * unitPrice') of
        None \<Rightarrow> None
      | Some p \<Rightarrow> (case discount' of None \<Rightarrow> None | Some d \<Rightarrow> to_double (p - d)))"

definition calcPrice :: "int \<Rightarrow> int \<Rightarrow> Discount \<Rightarrow> int option" where
  "calcPrice qty' unitPrice' discount' =
     (let disc = calcDiscount qty' (Discount.qty discount') (amount discount')
      in calcAmount qty' unitPrice' disc)"

definition price :: "BillItem \<Rightarrow> int option" where
  "price this = calcPrice (BillItem.qty this) (unitPrice (item this)) (discount this)"

subsection \<open>The bill and its total, as computed by displayScreen\<close>

text \<open>\<open>acc + item.price()\<close> on numbers that may be non-finite, rounded to a double.\<close>

definition num_add :: "int option \<Rightarrow> int option \<Rightarrow> int option" where
  "num_add a b =
     (case a of None \<Rightarrow> None
      | Some x \<Rightarrow> (case b of None \<Rightarrow> None | Some y \<Rightarrow> to_double (x + y)))"

text \<open>\<open>basket.reduce(addItemToBill, new Map())\<close>\<close>

definition billMap ::
  "(int, Item) js_map \<Rightarrow> (int, Discount) js_map \<Rightarrow> int list \<Rightarrow> (int, BillItem) js_map" where
  "billMap stock discounts bskt = foldl (addItemToBill stock discounts) (new_Map []) bskt"

text \<open>\<open>Array.from(billMap.values())\<close>\<close>

definition billArray :: "(int, BillItem) js_map \<Rightarrow> BillItem list" where
  "billArray m = map_values m"

text \<open>\<open>billArray.reduce((acc, item) => acc + item.price(), 0)\<close>\<close>

definition total :: "BillItem list \<Rightarrow> int option" where
  "total arr = foldl (\<lambda>acc item. num_add acc (price item)) (Some 0) arr"

definition grandTotal ::
  "(int, Item) js_map \<Rightarrow> (int, Discount) js_map \<Rightarrow> int list \<Rightarrow> int option" where
  "grandTotal stock discounts bskt = total (billArray (billMap stock discounts bskt))"

subsection \<open>Notions used to state the properties\<close>

text \<open>The SKUs of a list in the order of their first occurrence.\<close>

fun firstOccurrences :: "'a list \<Rightarrow> 'a list" where
  "firstOccurrences [] = []"
| "firstOccurrences (x # xs) = x # firstOccurrences (removeAll x xs)"

text \<open>The lines of a bill that are stored under a SKU.\<close>

definition linesFor :: "(int, BillItem) js_map \<Rightarrow> int \<Rightarrow> (int \<times> BillItem) list" where
  "linesFor bill s = filter (\<lambda>p. fst p = s) bill"

text \<open>The test by which \<open>addItemToBill\<close> keeps a SKU.\<close>

definition kept :: "(int, Item) js_map \<Rightarrow> int \<Rightarrow> bool" where
  "kept stock s = (desc (readItem stock s) \<noteq> UNKNOWN_SKU_TXT)"

section \<open>Auxiliary facts\<close>

lemma new_Map_Nil: "new_Map [] = []"
  by (simp add: new_Map_def)

lemma map_of_map_set: "map_of (map_set m k v) = (map_of m)(k \<mapsto> v)"
  by (induction m) (auto simp: fun_eq_iff)

lemma map_get_map_set: "map_get (map_set m k v) k' = (if k' = k then Some v else map_get m k')"
  by (simp add: map_get_def map_of_map_set)

lemma keys_map_set:
  "map fst (map_set m k v) = (if k \<in> fst ` set m then map fst m else map fst m @ [k])"
  by (induction m) (force split: if_splits)+

lemma map_get_None_iff: "map_get m k = None \<longleftrightarrow> k \<notin> set (map_keys m)"
  by (simp add: map_get_def map_keys_def map_of_eq_None_iff)

lemma stockList_entries: "stockList =
    [( 670, Item ''Apples (pack of 5)'' 194),
     (5243, Item ''Bananas (1kg)'' 268),
     (3317, Item ''Oranges (pack of 5)'' 150),
     (5712, Item ''Pineapple'' 259),
     (8903, Item ''Mango'' 75),
     ( 643, Item ''Potatoes (2.5kg)'' 198),
     (  57, Item ''Tomatoes (1kg)'' 199),
     (  56, Item ''Onions (pack of 4)'' 83),
     (1094, Item ''Lettuce'' 49),
     (2275, Item ''Rice (1kg)'' 148),
     (6034, Item ''Pasta (1kg)'' 120),
     (5907, Item ''Bread (800g loaf)'' 145),
     (3111, Item ''Pizza (350g)'' 260),
     ( 554, Item ''Beef Mince (500g)'' 199),
     (1373, Item ''Chicken Breast (pack of 2)'' 300),
     (6564, Item ''Salmon Fillets (pack of 2)'' 323),
     (7102, Item ''Pasta Sauce (500g jar)'' 184),
     (5079, Item ''Curry Sauce (500g jar)'' 184),
     (6386, Item ''Cheese (250g)'' 174),
     ( 347, Item ''Butter (250g)'' 152),
     (1019, Item ''Plain Yoghurt (500g)'' 94),
     (9190, Item ''Milk (568ml / 1 pint)'' 68),
     (6487, Item ''Milk (2.27L / 4 pints)'' 219),
     (4705, Item ''Fresh Orange Juice (1L)'' 169),
     (3263, Item ''Cola (2L)'' 99),
     (6469, Item ''Beer (pack of 4 bottles)'' 400),
     (5671, Item ''Red wine (70cl bottle)'' 750),
     (4719, Item ''Fish Fingers (500g)'' 335),
     (5643, Item ''Soap Powder'' 500),
     (1234, Item ''Dry Sherry, 1lt'' 1010)]"
  by (simp add: stockList_def new_Map_def)

lemma discountedSkus_entries:
  "discountedSkus = [(1234, Discount 2 250), (5671, Discount 2 125), (7102, Discount 3 50)]"
  by (simp add: discountedSkus_def new_Map_def)

lemma map_get_value_objects: "map_get_value (objects m) k = map_get m k"
  by (induction m) (auto simp: map_get_value_def objects_def map_get_def)

lemma genericMapGet_objects:
  "genericMapGet (objects m) (Some d) k =
     Some (case map_get m k of None \<Rightarrow> d | Some v \<Rightarrow> v)"
  by (simp add: genericMapGet_def map_get_value_objects split: option.splits)

lemma readItem_get:
  "readItem stock s = (case map_get stock s of None \<Rightarrow> UNKNOWN_SKU | Some it \<Rightarrow> it)"
  by (simp add: readItem_def genericMapGet_objects)

lemma readDiscount_get:
  "readDiscount ds s = (case map_get ds s of None \<Rightarrow> NO_DISCOUNT | Some d \<Rightarrow> d)"
  by (simp add: readDiscount_def genericMapGet_objects)

lemma kept_iff:
  "kept stock s \<longleftrightarrow> (\<exists>it. map_get stock s = Some it \<and> desc it \<noteq> UNKNOWN_SKU_TXT)"
  by (auto simp: kept_def readItem_get UNKNOWN_SKU_def Item_def split: option.splits)

lemma addItemToBill_dropped: "\<not> kept stock s \<Longrightarrow> addItemToBill stock ds acc s = acc"
  by (simp add: addItemToBill_def kept_def Let_def)

lemma addItemToBill_kept:
  "kept stock s \<Longrightarrow> addItemToBill stock ds acc s =
     map_set acc s (BillItem (updateQty acc s) (readItem stock s) (readDiscount ds s))"
  by (simp add: addItemToBill_def kept_def Let_def)

lemma fold_get:
  "map_get (foldl (addItemToBill stock ds) acc xs) s =
     (if kept stock s \<and> s \<in> set xs
      then Some (BillItem (updateQty acc s - 1 + int (count_list xs s))
                   (readItem stock s) (readDiscount ds s))
      else map_get acc s)"
proof (induction xs arbitrary: acc)
  case Nil
  then show ?case by simp
next
  case (Cons x xs)
  show ?case
  proof (cases "kept stock x")
    case False
    then show ?thesis
      using Cons.IH [of acc] by (auto simp: addItemToBill_dropped)
  next
    case True
    let ?acc = "map_set acc x (BillItem (updateQty acc x) (readItem stock x) (readDiscount ds x))"
    have upd: "updateQty ?acc s = (if s = x then updateQty acc x + 1 else updateQty acc s)"
      by (simp add: updateQty_def map_get_map_set BillItem_def)
    show ?thesis
      using Cons.IH [of ?acc] True
      by (auto simp: addItemToBill_kept upd map_get_map_set)
  qed
qed

lemma removeAll_filter_conv: "removeAll x (filter P xs) = filter (\<lambda>y. P y \<and> y \<noteq> x) xs"
  by (induction xs) auto

lemma fold_keys:
  "map fst (foldl (addItemToBill stock ds) acc xs) =
     map fst acc @ firstOccurrences (filter (\<lambda>s. kept stock s \<and> s \<notin> fst ` set acc) xs)"
proof (induction xs arbitrary: acc)
  case Nil
  then show ?case by simp
next
  case (Cons x xs)
  show ?case
  proof (cases "kept stock x")
    case False
    then show ?thesis
      using Cons.IH [of acc] by (simp add: addItemToBill_dropped)
  next
    case True
    let ?acc = "map_set acc x (BillItem (updateQty acc x) (readItem stock x) (readDiscount ds x))"
    show ?thesis
    proof (cases "x \<in> fst ` set acc")
      case True
      then have "map fst ?acc = map fst acc" by (simp add: keys_map_set)
      then have "fst ` set ?acc = fst ` set acc" by (metis set_map)
      with \<open>map fst ?acc = map fst acc\<close> \<open>kept stock x\<close> True show ?thesis
        using Cons.IH [of ?acc] by (simp add: addItemToBill_kept)
    next
      case False
      then have k: "map fst ?acc = map fst acc @ [x]" by (simp add: keys_map_set)
      then have "set (map fst ?acc) = set (map fst acc @ [x])" by simp
      then have s: "fst ` set ?acc = insert x (fst ` set acc)" by simp
      have "(\<lambda>s. kept stock s \<and> s \<notin> insert x (fst ` set acc))
            = (\<lambda>y. (kept stock y \<and> y \<notin> fst ` set acc) \<and> y \<noteq> x)" by auto
      with k s \<open>kept stock x\<close> False show ?thesis
        using Cons.IH [of ?acc] by (simp add: addItemToBill_kept removeAll_filter_conv)
    qed
  qed
qed

lemma set_firstOccurrences: "set (firstOccurrences xs) = set xs"
  by (induction xs rule: firstOccurrences.induct) auto

lemma distinct_firstOccurrences: "distinct (firstOccurrences xs)"
  by (induction xs rule: firstOccurrences.induct) (auto simp: set_firstOccurrences)

lemma updateQty_empty: "updateQty [] s = 1"
  by (simp add: updateQty_def map_get_def)

lemma billMap_get:
  "map_get (billMap stock ds bskt) s =
     (if kept stock s \<and> s \<in> set bskt
      then Some (BillItem (int (count_list bskt s)) (readItem stock s) (readDiscount ds s))
      else None)"
  by (simp add: billMap_def new_Map_Nil fold_get updateQty_empty) (simp add: map_get_def)

lemma billMap_keys:
  "map_keys (billMap stock ds bskt) = firstOccurrences (filter (kept stock) bskt)"
  by (simp add: billMap_def new_Map_Nil map_keys_def fold_keys)

lemma distinct_billMap: "distinct (map_keys (billMap stock ds bskt))"
  by (simp add: billMap_keys distinct_firstOccurrences)

lemma alist_by_keys:
  "distinct (map fst m) \<Longrightarrow> m = map (\<lambda>k. (k, the (map_of m k))) (map fst m)"
proof (induction m)
  case Nil
  then show ?case by simp
next
  case (Cons p m)
  then have "\<forall>k \<in> set (map fst m). k \<noteq> fst p" by force
  then have "map (\<lambda>k. (k, the (map_of (p # m) k))) (map fst m)
           = map (\<lambda>k. (k, the (map_of m k))) (map fst m)"
    by (intro map_cong) (auto simp del: set_map)
  with Cons show ?case by (cases p) simp
qed

lemma billMap_eq:
  "billMap stock ds bskt =
     map (\<lambda>s. (s, BillItem (int (count_list bskt s)) (readItem stock s) (readDiscount ds s)))
       (firstOccurrences (filter (kept stock) bskt))"
proof -
  let ?B = "billMap stock ds bskt"
  let ?ks = "firstOccurrences (filter (kept stock) bskt)"
  have k: "map fst ?B = ?ks"
    using billMap_keys [of stock ds bskt] by (simp add: map_keys_def)
  have "distinct (map fst ?B)"
    using distinct_billMap [of stock ds bskt] by (simp add: map_keys_def)
  then have "?B = map (\<lambda>k. (k, the (map_of ?B k))) (map fst ?B)"
    by (rule alist_by_keys)
  then have "?B = map (\<lambda>k. (k, the (map_get ?B k))) ?ks"
    by (simp add: k map_get_def)
  also have "\<dots> = map (\<lambda>s. (s, BillItem (int (count_list bskt s)) (readItem stock s)
                      (readDiscount ds s))) ?ks"
    by (intro map_cong) (auto simp: billMap_get set_firstOccurrences)
  finally show ?thesis .
qed

lemma linesFor_distinct:
  "distinct (map fst m) \<Longrightarrow>
     linesFor m k = (case map_of m k of None \<Rightarrow> [] | Some v \<Rightarrow> [(k, v)])"
proof (induction m)
  case Nil
  then show ?case by (simp add: linesFor_def)
next
  case (Cons p m)
  then have ih: "linesFor m k = (case map_of m k of None \<Rightarrow> [] | Some v \<Rightarrow> [(k, v)])"
    by simp
  show ?case
  proof (cases "fst p = k")
    case True
    with Cons.prems have "map_of m k = None"
      by (simp add: map_of_eq_None_iff)
    with ih True show ?thesis by (cases p) (simp add: linesFor_def)
  next
    case False
    with ih show ?thesis by (cases p) (auto simp: linesFor_def)
  qed
qed

lemma linesFor_billMap:
  "linesFor (billMap stock ds bskt) s =
     (if kept stock s \<and> s \<in> set bskt
      then [(s, BillItem (int (count_list bskt s)) (readItem stock s) (readDiscount ds s))]
      else [])"
proof -
  have "distinct (map fst (billMap stock ds bskt))"
    using distinct_billMap [of stock ds bskt] by (simp add: map_keys_def)
  then show ?thesis
    using billMap_get [of stock ds bskt s]
    by (simp add: linesFor_distinct map_get_def)
qed

lemma foldl_filter_skip:
  "(\<And>acc x. \<not> P x \<Longrightarrow> f acc x = acc) \<Longrightarrow> foldl f acc (filter P xs) = foldl f acc xs"
  by (induction xs arbitrary: acc) simp_all

lemma billMap_filter:
  "(\<And>x. \<not> P x \<Longrightarrow> \<not> kept stock x) \<Longrightarrow>
     billMap stock ds (filter P bskt) = billMap stock ds bskt"
  unfolding billMap_def
  by (rule foldl_filter_skip) (simp add: addItemToBill_dropped)

lemma absent_not_kept: "s \<notin> set (map_keys stock) \<Longrightarrow> \<not> kept stock s"
  by (simp add: kept_iff map_get_None_iff [symmetric])

lemma readItem_present: "map_get stock s = Some it \<Longrightarrow> readItem stock s = it"
  by (simp add: readItem_get)

lemma map_keys_addItemToBill_present:
  "s \<in> set (map_keys acc) \<Longrightarrow> map_keys (addItemToBill stock ds acc s) = map_keys acc"
  by (cases "kept stock s")
     (simp_all add: addItemToBill_dropped addItemToBill_kept map_keys_def keys_map_set)

lemma count_list_mset: "mset xs = mset ys \<Longrightarrow> count_list xs s = count_list ys s"
  by (metis count_mset)

lemma readDiscount_source:
  "1 \<le> Discount.qty (readDiscount discountedSkus sku)"
  "Discount.qty (readDiscount discountedSkus sku) \<le> 3"
  "0 \<le> amount (readDiscount discountedSkus sku)"
  "amount (readDiscount discountedSkus sku) \<le> 250"
  by (simp_all add: readDiscount_get map_get_def discountedSkus_entries
      NO_DISCOUNT_def Discount_def)

lemma stockList_kept: "s \<in> set (map_keys stockList) \<Longrightarrow> kept stockList s"
  by (auto simp: kept_def readItem_get map_get_def map_keys_def
      stockList_entries Item_def UNKNOWN_SKU_TXT_def)

subsection \<open>Double arithmetic is exact on integers below \<open>2 ^ 53\<close>\<close>

lemma round_half_even_bounds:
  assumes "0 < d"
  shows "2 * round_half_even n d * d \<le> 2 * n + d" and "2 * n - d \<le> 2 * round_half_even n d * d"
proof -
  define f where "f = n div d"
  define r where "r = n mod d"
  have n: "n = f * d + r" by (simp add: f_def r_def)
  have r0: "0 \<le> r" and rd: "r < d" using assms by (simp_all add: r_def)
  define m where "m = round_half_even n d"
  have m: "m = (if 2 * r < d then f else if d < 2 * r then f + 1
         else if even f then f else f + 1)"
    by (simp add: m_def round_half_even_def Let_def f_def r_def)
  have "2 * m * d \<le> 2 * (f * d + r) + d"
    unfolding m using r0 rd by (auto simp: algebra_simps)
  then show "2 * round_half_even n d * d \<le> 2 * n + d"
    using n by (simp add: m_def)
  have "2 * (f * d + r) - d \<le> 2 * m * d"
    unfolding m using r0 rd by (auto simp: algebra_simps)
  then show "2 * n - d \<le> 2 * round_half_even n d * d"
    using n by (simp add: m_def)
qed

lemma round_half_even_multiple: "0 < d \<Longrightarrow> round_half_even (c * d) d = c"
  by (simp add: round_half_even_def Let_def)

lemma to_double_exact: "\<bar>n\<bar> < 2 ^ 53 \<Longrightarrow> to_double n = Some n"
proof -
  assume "\<bar>n\<bar> < 2 ^ 53"
  then have "bitlen \<bar>n\<bar> \<le> 53" by (simp add: bitlen_le_iff_power)
  then show ?thesis by (simp add: to_double_def)
qed

lemma floor_of_rounded:
  fixes q t K :: int
  assumes t: "0 < t" and K: "0 < K" and tK: "t < 2 * K"
  shows "round_half_even (q * K) t div K = q div t"
proof -
  define n where "n = q div t"
  define r where "r = q mod t"
  define m where "m = round_half_even (q * K) t"
  have qn: "q = n * t + r" by (simp add: n_def r_def)
  have r0: "0 \<le> r" and rt: "r < t" using t by (simp_all add: r_def)
  show ?thesis
  proof (cases "r = 0")
    case True
    then have "q * K = (n * K) * t" using qn by (simp add: algebra_simps)
    then have "m = round_half_even ((n * K) * t) t" unfolding m_def by (rule arg_cong)
    then have "m = n * K" using t by (simp only: round_half_even_multiple)
    then show ?thesis using K by (simp add: m_def n_def)
  next
    case False
    with r0 have r1: "1 \<le> r" by simp
    have up: "2 * m * t \<le> 2 * (q * K) + t" and lo: "2 * (q * K) - t \<le> 2 * m * t"
      unfolding m_def using round_half_even_bounds [OF t] by blast+
    have "K \<le> r * K" using r1 K by simp
    then have "2 * (n * K) * t + 2 * K - t \<le> 2 * (q * K) - t"
      unfolding qn by (simp add: algebra_simps)
    with lo tK have "2 * (n * K) * t < 2 * m * t" by linarith
    then have "(n * K) * t < m * t" by simp
    then have l: "n * K < m" using t by (simp add: mult_less_cancel_right)
    have "r \<le> t - 1" using rt by simp
    then have "r * K \<le> (t - 1) * K" using K by (simp add: mult_right_mono)
    then have "2 * (q * K) + t \<le> 2 * ((n + 1) * K) * t - 2 * K + t"
      unfolding qn by (simp add: algebra_simps)
    with up tK have "2 * m * t < 2 * ((n + 1) * K) * t" by linarith
    then have "m * t < ((n + 1) * K) * t" by simp
    then have u: "m < (n + 1) * K" using t by (simp add: mult_less_cancel_right)
    have "m = K * n + (m - n * K)" by (simp add: algebra_simps)
    moreover have "0 \<le> m - n * K" using l by simp
    moreover have "m - n * K < K" using u by (simp add: algebra_simps)
    ultimately have "m div K = n" by (rule int_div_pos_eq)
    then show ?thesis by (simp add: m_def n_def)
  qed
qed

lemma bitlen_pos: "0 < x \<Longrightarrow> 1 \<le> bitlen x"
  using bitlen_eq_zero_iff [of x] bitlen_nonneg [of x] by linarith

lemma binary_exponent_bounds:
  fixes q t :: int
  assumes q0: "0 < q" and q: "q < 2 ^ 53" and t0: "0 < t" and t: "t < 2 ^ 53"
    and e_def: "e = binary_exponent q t"
  shows "- 53 \<le> e" and "e \<le> 52" and "t < 2 * 2 ^ nat (52 - e)"
proof -
  have bq: "1 \<le> bitlen q" "bitlen q \<le> 53"
    using q0 q by (simp_all add: bitlen_pos bitlen_le_iff_power)
  have bt: "1 \<le> bitlen t" "bitlen t \<le> 53"
    using t0 t by (simp_all add: bitlen_pos bitlen_le_iff_power)
  have ql: "2 ^ nat (bitlen q - 1) \<le> q" using bitlen_bounds [OF q0] by simp
  have tu: "t < 2 ^ nat (bitlen t)" using bitlen_bounds [OF t0] by simp
  define d where "d = bitlen q - bitlen t"
  have e_if: "e = (if 0 \<le> d then (if t * 2 ^ nat d \<le> q then d else d - 1)
                  else (if t \<le> q * 2 ^ nat (- d) then d else d - 1))"
    by (simp add: e_def binary_exponent_def d_def)
  have ed: "e = d \<or> e = d - 1" by (simp add: e_if)
  show lo: "- 53 \<le> e" and hi: "e \<le> 52"
    using ed bq bt by (auto simp: d_def)
  have E: "t * 2 ^ nat (e + 53) \<le> q * 2 ^ 53"
  proof (cases "e = d")
    case True
    show ?thesis
    proof (cases "0 \<le> d")
      case d: True
      with True have "t * 2 ^ nat d \<le> q" by (simp add: e_if split: if_splits)
      then have "t * 2 ^ nat d * 2 ^ 53 \<le> q * 2 ^ 53" by simp
      moreover have "nat (d + 53) = nat d + 53" using d by (simp add: nat_add_distrib)
      ultimately show ?thesis using True by (simp add: power_add mult.assoc)
    next
      case d: False
      with True have "t \<le> q * 2 ^ nat (- d)" by (simp add: e_if split: if_splits)
      then have "t * 2 ^ nat (d + 53) \<le> q * 2 ^ nat (- d) * 2 ^ nat (d + 53)"
        by (simp add: mult_right_mono)
      moreover have "nat (- d) + nat (d + 53) = 53"
        using d lo True by simp
      then have "(2::int) ^ nat (- d) * 2 ^ nat (d + 53) = 2 ^ 53"
        by (simp only: power_add [symmetric])
      ultimately show ?thesis using True by (simp add: mult.assoc)
    qed
  next
    case False
    with ed have e: "e = d - 1" by simp
    have "t * 2 ^ nat (d + 52) \<le> 2 ^ nat (bitlen t) * 2 ^ nat (d + 52)"
      using tu by (simp add: mult_right_mono)
    also have "nat (bitlen t) + nat (d + 52) = nat (bitlen q - 1) + 53"
      using bq bt lo e by (simp add: d_def)
    then have "(2::int) ^ nat (bitlen t) * 2 ^ nat (d + 52) = 2 ^ nat (bitlen q - 1) * 2 ^ 53"
      by (simp only: power_add [symmetric])
    also have "\<dots> \<le> q * 2 ^ 53" using ql by simp
    finally show ?thesis using e by (simp add: add.commute)
  qed
  have "q * 2 ^ 53 < (2 ^ 53 :: int) * 2 ^ 53" using q by simp
  with E have "t * 2 ^ nat (e + 53) < (2 ^ 53 :: int) * 2 ^ 53" by linarith
  moreover have "nat (53 - e) + nat (e + 53) = 53 + 53" using lo hi by simp
  then have "(2 ^ 53 :: int) * 2 ^ 53 = 2 ^ nat (53 - e) * 2 ^ nat (e + 53)"
    by (simp only: power_add [symmetric])
  ultimately have "t * 2 ^ nat (e + 53) < 2 ^ nat (53 - e) * (2 ^ nat (e + 53) :: int)"
    by simp
  then have "t < 2 ^ nat (53 - e)" by (simp add: mult_less_cancel_right)
  moreover have "nat (53 - e) = Suc (nat (52 - e))" using hi by simp
  ultimately show "t < 2 * 2 ^ nat (52 - e)" by simp
qed

lemma js_div_exact:
  fixes q t :: int
  assumes q0: "0 \<le> q" and q: "q < 2 ^ 53" and t0: "1 \<le> t" and t: "t < 2 ^ 53"
  shows "\<exists>v. js_div q t = Some v \<and> Math_floor v = q div t"
proof (cases "q = 0")
  case True
  with t0 show ?thesis by (simp add: js_div_def Math_floor_def)
next
  case False
  with q0 have qp: "0 < q" by simp
  from t0 have tp: "0 < t" by simp
  define e where "e = binary_exponent q t"
  define K :: int where "K = 2 ^ nat (52 - e)"
  define m where "m = round_half_even (q * K) t"
  have lo: "- 53 \<le> e" and hi: "e \<le> 52" and tK: "t < 2 * K"
    using binary_exponent_bounds [OF qp q tp t e_def] by (simp_all add: K_def)
  have k: "max e (- 1022) - 52 = e - 52" using lo by simp
  have K0: "0 < K" by (simp add: K_def)
  have K1: "e = 52 \<Longrightarrow> K = 1" by (simp add: K_def)
  have "js_div q t = Some (m, e - 52)"
    using qp tp hi K1
    by (auto simp: js_div_def Let_def e_def [symmetric] k m_def K_def)
  moreover have "Math_floor (m, e - 52) = m div K"
    using hi K1 by (auto simp: Math_floor_def K_def)
  moreover have "m div K = q div t"
    unfolding m_def using tp K0 tK by (rule floor_of_rounded)
  ultimately show ?thesis by simp
qed

lemma js_div_None_iff: "js_div x y = None \<longleftrightarrow> y = 0"
  by (simp add: js_div_def Let_def)

subsection \<open>Pricing and total on integers below \<open>2 ^ 53\<close>\<close>

lemma calcDiscount_exact:
  assumes "0 \<le> q" "q < 2 ^ 53" "1 \<le> t" "t < 2 ^ 53" "\<bar>q div t * a\<bar> < 2 ^ 53"
  shows "calcDiscount q t a = Some (q div t * a)"
proof -
  obtain v where "js_div q t = Some v" "Math_floor v = q div t"
    using js_div_exact [OF assms(1-4)] by blast
  then show ?thesis
    using assms(5) by (simp add: calcDiscount_def to_double_exact)
qed

lemma calcAmount_exact:
  "\<bar>q * u\<bar> < 2 ^ 53 \<Longrightarrow> \<bar>q * u - d\<bar> < 2 ^ 53 \<Longrightarrow> calcAmount q u (Some d) = Some (q * u - d)"
  by (simp add: calcAmount_def to_double_exact)

lemma price_exact:
  assumes "0 \<le> BillItem.qty l" "BillItem.qty l < 2 ^ 53"
    and "1 \<le> Discount.qty (discount l)" "Discount.qty (discount l) < 2 ^ 53"
    and "\<bar>BillItem.qty l div Discount.qty (discount l) * amount (discount l)\<bar> < 2 ^ 53"
    and "\<bar>BillItem.qty l * unitPrice (item l)\<bar> < 2 ^ 53"
    and "\<bar>BillItem.qty l * unitPrice (item l)
          - BillItem.qty l div Discount.qty (discount l) * amount (discount l)\<bar> < 2 ^ 53"
  shows "price l = Some (BillItem.qty l * unitPrice (item l)
                         - BillItem.qty l div Discount.qty (discount l) * amount (discount l))"
  using assms by (simp add: price_def calcPrice_def calcDiscount_exact calcAmount_exact)

lemma foldl_num_add_None:
  "foldl (\<lambda>acc item. num_add acc (price item)) None arr = None"
  by (induction arr) (simp_all add: num_add_def)

lemma total_not_finite: "None \<in> set (map price arr) \<Longrightarrow> total arr = None"
proof -
  have "None \<in> set (map price arr) \<Longrightarrow>
        foldl (\<lambda>acc item. num_add acc (price item)) a arr = None" for a
  proof (induction arr arbitrary: a)
    case Nil
    then show ?case by simp
  next
    case (Cons l arr)
    show ?case
    proof (cases "price l")
      case None
      then have "num_add a (price l) = None" by (simp add: num_add_def split: option.splits)
      then show ?thesis by (simp add: foldl_num_add_None)
    next
      case (Some p)
      with Cons.prems have "None \<in> set (map price arr)" by auto
      then show ?thesis using Cons.IH by simp
    qed
  qed
  then show "None \<in> set (map price arr) \<Longrightarrow> total arr = None"
    by (simp add: total_def)
qed

lemma foldl_num_add_exact:
  "map price arr = map Some ps \<Longrightarrow> \<bar>z\<bar> + (\<Sum>p\<leftarrow>ps. \<bar>p\<bar>) < 2 ^ 53 \<Longrightarrow>
     foldl (\<lambda>acc item. num_add acc (price item)) (Some z) arr = Some (z + sum_list ps)"
proof (induction arr arbitrary: z ps)
  case Nil
  then show ?case by simp
next
  case (Cons l arr)
  then obtain p ps' where ps: "ps = p # ps'" and p: "price l = Some p"
    and rest: "map price arr = map Some ps'"
    by (cases ps) auto
  have b: "\<bar>z\<bar> + \<bar>p\<bar> + (\<Sum>p\<leftarrow>ps'. \<bar>p\<bar>) < 2 ^ 53"
    using Cons.prems(2) ps by simp
  have nn: "0 \<le> (\<Sum>p\<leftarrow>ps'. \<bar>p\<bar>)" by (rule sum_list_nonneg) auto
  have "\<bar>z + p\<bar> < 2 ^ 53" using b nn by linarith
  then have s: "num_add (Some z) (price l) = Some (z + p)"
    by (simp add: num_add_def p to_double_exact)
  have "\<bar>z + p\<bar> + (\<Sum>p\<leftarrow>ps'. \<bar>p\<bar>) < 2 ^ 53" using b by linarith
  with rest have "foldl (\<lambda>acc item. num_add acc (price item)) (Some (z + p)) arr
                  = Some (z + p + sum_list ps')"
    by (rule Cons.IH)
  with s ps show ?case by simp
qed

lemma total_exact:
  "map price arr = map Some ps \<Longrightarrow> (\<Sum>p\<leftarrow>ps. \<bar>p\<bar>) < 2 ^ 53 \<Longrightarrow>
     total arr = Some (sum_list ps)"
  using foldl_num_add_exact [of arr ps 0] by (simp add: total_def)

lemma total_permuted:
  assumes m: "mset arr' = mset arr" and ps: "map price arr = map Some ps"
    and b: "(\<Sum>p\<leftarrow>ps. \<bar>p\<bar>) < 2 ^ 53"
  shows "total arr' = Some (sum_list ps)"
proof -
  define ps' where "ps' = map (\<lambda>l. the (price l)) arr'"
  have ps_eq: "ps = map (\<lambda>l. the (price l)) arr"
    using ps by (induction arr arbitrary: ps) auto
  from ps have "\<forall>l \<in> set arr. price l \<noteq> None"
    by (induction arr arbitrary: ps) auto
  moreover have "set arr' = set arr" using m by (rule mset_eq_setD)
  ultimately have p': "map price arr' = map Some ps'"
    by (auto simp: ps'_def)
  have mm: "mset ps' = mset ps"
    unfolding ps'_def ps_eq mset_map m ..
  then have "mset (map abs ps') = mset (map abs ps)" by simp
  then have "(\<Sum>p\<leftarrow>ps'. \<bar>p\<bar>) = (\<Sum>p\<leftarrow>ps. \<bar>p\<bar>)"
    by (metis sum_mset_sum_list)
  with b have "total arr' = Some (sum_list ps')"
    using p' by (simp add: total_exact)
  moreover have "sum_list ps' = sum_list ps"
    using mm by (metis sum_mset_sum_list)
  ultimately show ?thesis by simp
qed

subsection \<open>The bill of the basket in the source\<close>

lemma source_bill:
  "billMap stockList discountedSkus basket =
     [( 670, BillItem 2 (Item ''Apples (pack of 5)'' 194) NO_DISCOUNT),
      (3317, BillItem 1 (Item ''Oranges (pack of 5)'' 150) NO_DISCOUNT),
      ( 643, BillItem 1 (Item ''Potatoes (2.5kg)'' 198) NO_DISCOUNT),
      (1234, BillItem 2 (Item ''Dry Sherry, 1lt'' 1010) (Discount 2 250)),
      (5907, BillItem 1 (Item ''Bread (800g loaf)'' 145) NO_DISCOUNT),
      (6034, BillItem 1 (Item ''Pasta (1kg)'' 120) NO_DISCOUNT),
      (5671, BillItem 2 (Item ''Red wine (70cl bottle)'' 750) (Discount 2 125)),
      (7102, BillItem 3 (Item ''Pasta Sauce (500g jar)'' 184) (Discount 3 50)),
      (1094, BillItem 1 (Item ''Lettuce'' 49) NO_DISCOUNT),
      (1373, BillItem 1 (Item ''Chicken Breast (pack of 2)'' 300) NO_DISCOUNT),
      (6469, BillItem 1 (Item ''Beer (pack of 4 bottles)'' 400) NO_DISCOUNT)]"
  by (simp add: billMap_def basket_def new_Map_Nil addItemToBill_def updateQty_def
      readItem_get readDiscount_get map_get_def stockList_entries
      discountedSkus_entries Item_def BillItem_def UNKNOWN_SKU_TXT_def Let_def)

lemma source_total: "grandTotal stockList discountedSkus basket = Some 5397"
  by code_simp

section \<open>Properties of the engine\<close>

text \<open>
  C1, as amended: for every stock catalog, every basket and every SKU \<open>s\<close> that the
  catalog holds with a description other than the marker text \<open>Unknown SKU\<close>: if \<open>s\<close>
  occurs in the basket, the bill folded from the basket (starting from the empty map)
  has exactly one line for \<open>s\<close>, and its quantity is the number of occurrences of \<open>s\<close>
  in the basket; and the bill has no line for a SKU that does not occur in the basket.
  Every SKU of the catalog in the source has such a description.
\<close>

theorem billMap_line_quantity:
  "map_get stock s = Some it \<Longrightarrow> desc it \<noteq> UNKNOWN_SKU_TXT \<Longrightarrow>
     (s \<in> set bskt \<longrightarrow>
        linesFor (billMap stock ds bskt) s =
          [(s, BillItem (int (count_list bskt s)) it (readDiscount ds s))]) \<and>
     (\<forall>k. k \<notin> set bskt \<longrightarrow> linesFor (billMap stock ds bskt) k = [])"
proof -
  assume it: "map_get stock s = Some it" and d: "desc it \<noteq> UNKNOWN_SKU_TXT"
  then have "kept stock s" by (auto simp: kept_iff)
  moreover have "readItem stock s = it" using it by (rule readItem_present)
  ultimately show ?thesis by (simp add: linesFor_billMap)
qed

theorem billMap_line_quantity_witness:
  "map_get stockList 7102 = Some (Item ''Pasta Sauce (500g jar)'' 184) \<and>
   desc (Item ''Pasta Sauce (500g jar)'' 184) \<noteq> UNKNOWN_SKU_TXT \<and>
   7102 \<in> set basket \<and>
   linesFor (billMap stockList discountedSkus basket) 7102 =
     [(7102, BillItem 3 (Item ''Pasta Sauce (500g jar)'' 184) (Discount 3 50))] \<and>
   5243 \<notin> set basket \<and>
   linesFor (billMap stockList discountedSkus basket) 5243 = []"
  using billMap_line_quantity [of stockList 7102 "Item ''Pasta Sauce (500g jar)'' 184"
          basket discountedSkus]
  by (simp add: stockList_entries discountedSkus_entries map_get_def basket_def Item_def
      UNKNOWN_SKU_TXT_def readDiscount_get)

text \<open>
  C1 as stated, for every SKU present in the stock catalog, fails on a catalog entry
  whose description is the marker text: SKU \<open>1\<close> is in the catalog and occurs once in
  the basket, and the bill has no line for it.
\<close>

theorem marker_catalog_entry_counterexample:
  "map_get (new_Map [(1::int, Item ''Unknown SKU'' 5)]) 1 = Some (Item ''Unknown SKU'' 5) \<and>
   count_list [1::int] 1 = 1 \<and>
   linesFor (billMap (new_Map [(1::int, Item ''Unknown SKU'' 5)]) discountedSkus [1]) 1 = []"
  by (simp add: new_Map_def map_get_def billMap_def addItemToBill_def readItem_get
      Item_def UNKNOWN_SKU_TXT_def linesFor_def)

text \<open>
  C2: the occurrences of SKUs that the stock catalog does not hold change nothing. The
  bill and the grand total of a basket are those of the basket without these
  occurrences (and also those of the basket restricted to the SKUs that the aggregator
  keeps). The step for such a SKU returns the accumulator as it is, and the bill has no
  line for it. \<open>addItemToBill\<close> is a total function: no step fails.
\<close>

theorem absent_skus_dropped:
  "billMap stock ds bskt = billMap stock ds (filter (\<lambda>s. s \<in> set (map_keys stock)) bskt) \<and>
   grandTotal stock ds bskt =
     grandTotal stock ds (filter (\<lambda>s. s \<in> set (map_keys stock)) bskt) \<and>
   billMap stock ds bskt = billMap stock ds (filter (kept stock) bskt) \<and>
   grandTotal stock ds bskt = grandTotal stock ds (filter (kept stock) bskt) \<and>
   (\<forall>s. s \<notin> set (map_keys stock) \<longrightarrow>
      (\<forall>acc. addItemToBill stock ds acc s = acc) \<and> linesFor (billMap stock ds bskt) s = [])"
proof -
  have "billMap stock ds (filter (\<lambda>s. s \<in> set (map_keys stock)) bskt) = billMap stock ds bskt"
    by (rule billMap_filter) (rule absent_not_kept)
  moreover have "billMap stock ds (filter (kept stock) bskt) = billMap stock ds bskt"
    by (rule billMap_filter)
  ultimately show ?thesis
    by (simp add: grandTotal_def absent_not_kept addItemToBill_dropped linesFor_billMap)
qed

theorem absent_skus_dropped_witness:
  "9999 \<notin> set (map_keys stockList) \<and>
   addItemToBill stockList discountedSkus [] 9999 = [] \<and>
   linesFor (billMap stockList discountedSkus [9999, 670, 9999]) 9999 = [] \<and>
   billMap stockList discountedSkus [9999, 670, 9999] = billMap stockList discountedSkus [670] \<and>
   grandTotal stockList discountedSkus [9999, 670, 9999] =
     grandTotal stockList discountedSkus [670]"
proof -
  have a: "9999 \<notin> set (map_keys stockList)" and p: "670 \<in> set (map_keys stockList)"
    by (simp_all add: stockList_entries map_keys_def)
  then have f: "filter (\<lambda>s. s \<in> set (map_keys stockList)) [9999, 670, 9999] = [670]"
    by simp
  show ?thesis
    using absent_skus_dropped [of stockList discountedSkus "[9999, 670, 9999]"] a
    unfolding f by blast
qed

text \<open>
  C3, as amended: for non-negative \<open>q\<close> and \<open>a\<close> and a threshold \<open>t \<ge> 1\<close>, as long as
  \<open>q\<close>, \<open>t\<close> and the product \<open>floor (q / t) * a\<close> are below \<open>2 ^ 53\<close>,
  \<open>calcDiscount q t a\<close> is \<open>floor (q / t) * a\<close>, which is \<open>(q div t) * a\<close>. It is \<open>0\<close> when
  \<open>q < t\<close>, and buying \<open>t * n + r\<close> units with \<open>0 \<le> r < t\<close> earns exactly \<open>n\<close> times the
  amount.
\<close>

theorem calcDiscount_whole_multiples:
  "0 \<le> q \<Longrightarrow> 0 \<le> a \<Longrightarrow> 1 \<le> t \<Longrightarrow> q < 2 ^ 53 \<Longrightarrow> t < 2 ^ 53 \<Longrightarrow> q div t * a < 2 ^ 53 \<Longrightarrow>
     calcDiscount q t a = Some (\<lfloor>real_of_int q / real_of_int t\<rfloor> * a) \<and>
     calcDiscount q t a = Some (q div t * a) \<and>
     (q < t \<longrightarrow> calcDiscount q t a = Some 0) \<and>
     (\<forall>n r. q = t * n + r \<and> 0 \<le> r \<and> r < t \<longrightarrow> calcDiscount q t a = Some (n * a))"
proof -
  assume q: "0 \<le> q" and a: "0 \<le> a" and t: "1 \<le> t"
    and qb: "q < 2 ^ 53" and tb: "t < 2 ^ 53" and pb: "q div t * a < 2 ^ 53"
  have "0 \<le> q div t" using q t by (simp add: pos_imp_zdiv_nonneg_iff)
  then have "0 \<le> q div t * a" using a by simp
  with pb have "\<bar>q div t * a\<bar> < 2 ^ 53" by simp
  with q qb t tb have d: "calcDiscount q t a = Some (q div t * a)"
    by (rule calcDiscount_exact)
  have f: "\<lfloor>real_of_int q / real_of_int t\<rfloor> = q div t"
    by (rule floor_divide_of_int_eq)
  have z: "q < t \<longrightarrow> calcDiscount q t a = Some 0"
    using q d by simp
  have m: "\<forall>n r. q = t * n + r \<and> 0 \<le> r \<and> r < t \<longrightarrow> calcDiscount q t a = Some (n * a)"
    using d by (auto simp: int_div_pos_eq)
  show ?thesis using d f z m by simp
qed

theorem calcDiscount_whole_multiples_witness:
  "(0::int) \<le> 7 \<and> (0::int) \<le> 50 \<and> (1::int) \<le> 3 \<and> (7::int) < 2 ^ 53 \<and> (3::int) < 2 ^ 53 \<and>
   (7::int) div 3 * 50 < 2 ^ 53 \<and>
   calcDiscount 7 3 50 = Some 100 \<and> calcDiscount 2 3 50 = Some 0"
  using calcDiscount_whole_multiples [of 7 50 3] calcDiscount_whole_multiples [of 2 50 3]
  by simp

text \<open>
  C3 as stated, for all non-negative integers, fails where the product is not a double:
  \<open>calcDiscount 94906267 1 94906267\<close> is the product rounded to the nearest double,
  one less than \<open>floor (q / t) * a\<close>.
\<close>

theorem calcDiscount_rounded_product_counterexample:
  "calcDiscount 94906267 1 94906267 = Some 9007199515875288 \<and>
   \<lfloor>real_of_int 94906267 / real_of_int 1\<rfloor> * 94906267 = (9007199515875289 :: int)"
proof -
  have "calcDiscount 94906267 1 94906267 = Some 9007199515875288"
    by code_simp
  moreover have "\<lfloor>real_of_int 94906267 / real_of_int 1\<rfloor> * 94906267 = (9007199515875289 :: int)"
    by simp
  ultimately show ?thesis by (rule conjI)
qed

text \<open>
  C4, as amended: when the prices of the lines of a bill are the numbers \<open>ps\<close> and the
  sum of their magnitudes is below \<open>2 ^ 53\<close>, the total of the bill is the sum of
  \<open>ps\<close>, and the lines summed in any other order give the same total. A line whose
  price is not finite makes the total not finite.
\<close>

theorem total_is_sum_of_prices:
  "(\<forall>ps. map price arr = map Some ps \<and> (\<Sum>p\<leftarrow>ps. \<bar>p\<bar>) < 2 ^ 53 \<longrightarrow>
      total arr = Some (sum_list ps) \<and>
      (\<forall>arr'. mset arr' = mset arr \<longrightarrow> total arr' = total arr)) \<and>
   (None \<in> set (map price arr) \<longrightarrow> total arr = None)"
proof -
  have fin: "total arr = Some (sum_list ps) \<and>
      (\<forall>arr'. mset arr' = mset arr \<longrightarrow> total arr' = total arr)"
    if ps: "map price arr = map Some ps" and b: "(\<Sum>p\<leftarrow>ps. \<bar>p\<bar>) < 2 ^ 53" for ps
  proof -
    have t: "total arr = Some (sum_list ps)"
      using ps b by (rule total_exact)
    have "total arr' = Some (sum_list ps)" if "mset arr' = mset arr" for arr'
      using that ps b by (rule total_permuted)
    with t show ?thesis by simp
  qed
  have inf: "None \<in> set (map price arr) \<longrightarrow> total arr = None"
    using total_not_finite by blast
  show ?thesis using fin inf by blast
qed

theorem total_is_sum_of_prices_witness:
  "map price [BillItem 2 (Item ''Apples (pack of 5)'' 194) (Discount 1 0),
              BillItem 3 (Item ''Dry Sherry, 1lt'' 1010) (Discount 2 250)]
     = map Some [388, 2780] \<and>
   (\<Sum>p\<leftarrow>[388, 2780 :: int]. \<bar>p\<bar>) < 2 ^ 53 \<and>
   total [BillItem 2 (Item ''Apples (pack of 5)'' 194) (Discount 1 0),
          BillItem 3 (Item ''Dry Sherry, 1lt'' 1010) (Discount 2 250)] = Some 3168 \<and>
   mset [BillItem 3 (Item ''Dry Sherry, 1lt'' 1010) (Discount 2 250),
         BillItem 2 (Item ''Apples (pack of 5)'' 194) (Discount 1 0)]
     = mset [BillItem 2 (Item ''Apples (pack of 5)'' 194) (Discount 1 0),
             BillItem 3 (Item ''Dry Sherry, 1lt'' 1010) (Discount 2 250)] \<and>
   total [BillItem 3 (Item ''Dry Sherry, 1lt'' 1010) (Discount 2 250),
          BillItem 2 (Item ''Apples (pack of 5)'' 194) (Discount 1 0)] = Some 3168 \<and>
   None \<in> set (map price [BillItem 2 (Item ''Mango'' 75) (Discount 0 10)]) \<and>
   total [BillItem 2 (Item ''Mango'' 75) (Discount 0 10)] = None"
proof -
  let ?a = "BillItem 2 (Item ''Apples (pack of 5)'' 194) (Discount 1 0)"
  let ?s = "BillItem 3 (Item ''Dry Sherry, 1lt'' 1010) (Discount 2 250)"
  let ?m = "BillItem 2 (Item ''Mango'' 75) (Discount 0 10)"
  have pa: "price ?a = Some 388" and ps: "price ?s = Some 2780" and pm: "price ?m = None"
    by code_simp+
  have m: "mset [?s, ?a] = mset [?a, ?s]" by (simp add: add.commute)
  have e: "map price [?a, ?s] = map Some [388, 2780]" using pa ps by simp
  have b: "(\<Sum>p\<leftarrow>[388, 2780 :: int]. \<bar>p\<bar>) < 2 ^ 53" by simp
  have t1: "total [?a, ?s] = Some (sum_list [388, 2780])"
    using total_is_sum_of_prices [of "[?a, ?s]"] e b by blast
  have t2: "total [?s, ?a] = total [?a, ?s]"
    using total_is_sum_of_prices [of "[?a, ?s]"] e b m by blast
  have n: "None \<in> set (map price [?m])" using pm by simp
  have t3: "total [?m] = None"
    using total_is_sum_of_prices [of "[?m]"] n by blast
  show ?thesis using e b t1 t2 m n t3 by simp
qed

text \<open>
  C4 as stated, for every bill, fails where a partial sum is not a double: with the
  prices \<open>2 ^ 53\<close>, \<open>1\<close> and \<open>1\<close> the reduce returns \<open>2 ^ 53\<close>, not the sum \<open>2 ^ 53 + 2\<close>,
  and the same lines with the large price last give \<open>2 ^ 53 + 2\<close>.
\<close>

theorem total_rounded_sum_counterexample:
  "map price [BillItem 1 (Item ''Red wine (70cl bottle)'' 9007199254740992) (Discount 1 0),
              BillItem 1 (Item ''Lettuce'' 1) (Discount 1 0),
              BillItem 1 (Item ''Mango'' 1) (Discount 1 0)]
     = map Some [9007199254740992, 1, 1] \<and>
   sum_list [9007199254740992, 1, 1] = (9007199254740994 :: int) \<and>
   total [BillItem 1 (Item ''Red wine (70cl bottle)'' 9007199254740992) (Discount 1 0),
          BillItem 1 (Item ''Lettuce'' 1) (Discount 1 0),
          BillItem 1 (Item ''Mango'' 1) (Discount 1 0)] = Some 9007199254740992 \<and>
   total [BillItem 1 (Item ''Lettuce'' 1) (Discount 1 0),
          BillItem 1 (Item ''Mango'' 1) (Discount 1 0),
          BillItem 1 (Item ''Red wine (70cl bottle)'' 9007199254740992) (Discount 1 0)]
     = Some 9007199254740994"
proof -
  let ?w = "BillItem 1 (Item ''Red wine (70cl bottle)'' 9007199254740992) (Discount 1 0)"
  let ?l = "BillItem 1 (Item ''Lettuce'' 1) (Discount 1 0)"
  let ?m = "BillItem 1 (Item ''Mango'' 1) (Discount 1 0)"
  have p: "price ?w = Some 9007199254740992" "price ?l = Some 1" "price ?m = Some 1"
    by code_simp+
  have t1: "total [?w, ?l, ?m] = Some 9007199254740992"
    by code_simp
  have t2: "total [?l, ?m, ?w] = Some 9007199254740994"
    by code_simp
  show ?thesis using p t1 t2 by simp
qed

text \<open>
  C5, as amended: for a bill line with quantity \<open>q \<ge> 0\<close>, unit price \<open>u\<close> and discount
  rule \<open>(t, a)\<close> with \<open>t \<ge> 1\<close>, as long as \<open>q\<close>, \<open>t\<close>, the product \<open>q * u\<close>, the discount
  \<open>floor (q / t) * a\<close> and their difference are below \<open>2 ^ 53\<close> in magnitude, the price is
  \<open>q * u - floor (q / t) * a\<close>. \<open>price\<close> is a function of the fields of the line, so
  nothing is cached; the result is not clamped: it is negative whenever the discount
  exceeds \<open>q * u\<close>.
\<close>

theorem price_formula:
  "0 \<le> q \<Longrightarrow> q < 2 ^ 53 \<Longrightarrow> 1 \<le> t \<Longrightarrow> t < 2 ^ 53 \<Longrightarrow>
   \<bar>q div t * a\<bar> < 2 ^ 53 \<Longrightarrow> \<bar>q * u\<bar> < 2 ^ 53 \<Longrightarrow> \<bar>q * u - q div t * a\<bar> < 2 ^ 53 \<Longrightarrow>
     price (BillItem q (Item d u) (Discount t a)) = Some (q * u - (q div t) * a) \<and>
     (q * u < (q div t) * a \<longrightarrow>
        (\<exists>p. price (BillItem q (Item d u) (Discount t a)) = Some p \<and> p < 0))"
  using price_exact [of "BillItem q (Item d u) (Discount t a)"]
  by (simp add: BillItem_def Item_def Discount_def)

theorem price_formula_witness:
  "(0::int) \<le> 3 \<and> (3::int) < 2 ^ 53 \<and> (1::int) \<le> 2 \<and> (2::int) < 2 ^ 53 \<and>
   \<bar>(3::int) div 2 * 250\<bar> < 2 ^ 53 \<and> \<bar>(3::int) * 1010\<bar> < 2 ^ 53 \<and>
   \<bar>(3::int) * 1010 - 3 div 2 * 250\<bar> < 2 ^ 53 \<and>
   price (BillItem 3 (Item ''Dry Sherry, 1lt'' 1010) (Discount 2 250)) = Some 2780 \<and>
   price (BillItem 1 (Item ''Mango'' 75) (Discount 1 100)) = Some (- 25)"
  using price_formula [of 3 2 250 1010 "''Dry Sherry, 1lt''"]
        price_formula [of 1 1 100 75 "''Mango''"]
  by simp

text \<open>
  C5 as stated, for every bill line, fails where \<open>q * u\<close> is not a double: with
  \<open>q = u = 94906267\<close> and no discount the price is the product rounded to the nearest
  double, one less than \<open>q * u - floor (q / t) * a\<close>.
\<close>

theorem price_rounded_product_counterexample:
  "price (BillItem 94906267 (Item ''Mango'' 94906267) (Discount 1 0))
     = Some 9007199515875288 \<and>
   94906267 * 94906267 - 94906267 div 1 * 0 = (9007199515875289 :: int)"
proof -
  have "price (BillItem 94906267 (Item ''Mango'' 94906267) (Discount 1 0))
          = Some 9007199515875288"
    by code_simp
  then show ?thesis by simp
qed

text \<open>
  C6, as amended: for every map, fallback value and key, \<open>genericMapGet\<close> returns the
  stored value when the map has the key with a value other than \<open>undefined\<close>, and the
  fallback value as it is when the map does not have the key or stores \<open>undefined\<close>
  under it. For a map that holds objects only, as the stock list and the discount
  table do, it returns the stored value for every key the map has. It is a total
  function: no lookup fails.
\<close>

theorem genericMapGet_lookup:
  "(\<forall>v. map_get someMap theThing = Some (Some v) \<longrightarrow>
        genericMapGet someMap notThereValue theThing = Some v) \<and>
   (map_get someMap theThing = Some None \<longrightarrow>
        genericMapGet someMap notThereValue theThing = notThereValue) \<and>
   (theThing \<notin> set (map_keys someMap) \<longrightarrow>
        genericMapGet someMap notThereValue theThing = notThereValue) \<and>
   (\<forall>m d. (\<forall>v. map_get m theThing = Some v \<longrightarrow>
               genericMapGet (objects m) (Some d) theThing = Some v) \<and>
          (theThing \<notin> set (map_keys m) \<longrightarrow>
               genericMapGet (objects m) (Some d) theThing = Some d))"
proof -
  have stored: "\<forall>v. map_get someMap theThing = Some (Some v) \<longrightarrow>
        genericMapGet someMap notThereValue theThing = Some v"
    by (simp add: genericMapGet_def map_get_value_def map_get_def)
  have undef: "map_get someMap theThing = Some None \<longrightarrow>
        genericMapGet someMap notThereValue theThing = notThereValue"
    by (simp add: genericMapGet_def map_get_value_def map_get_def)
  have absent: "theThing \<notin> set (map_keys someMap) \<longrightarrow>
        genericMapGet someMap notThereValue theThing = notThereValue"
    by (simp add: genericMapGet_def map_get_value_def map_get_None_iff [symmetric] map_get_def)
  show ?thesis
    using stored undef absent
    by (simp add: genericMapGet_objects map_get_None_iff [symmetric])
qed

theorem genericMapGet_lookup_witness:
  "map_get discountedSkus 7102 = Some (Discount 3 50) \<and>
   genericMapGet (objects discountedSkus) (Some NO_DISCOUNT) 7102 = Some (Discount 3 50) \<and>
   670 \<notin> set (map_keys discountedSkus) \<and>
   genericMapGet (objects discountedSkus) (Some NO_DISCOUNT) 670 = Some NO_DISCOUNT \<and>
   map_get [(1::int, Some (Discount 3 50)), (2, None)] 1 = Some (Some (Discount 3 50)) \<and>
   genericMapGet [(1::int, Some (Discount 3 50)), (2, None)] None 1 = Some (Discount 3 50) \<and>
   3 \<notin> set (map_keys [(1::int, Some (Discount 3 50)), (2, None)]) \<and>
   genericMapGet [(1::int, Some (Discount 3 50)), (2, None)] (Some NO_DISCOUNT) 3
     = Some NO_DISCOUNT"
proof -
  let ?m = "[(1::int, Some (Discount 3 50)), (2, None)]"
  have g: "map_get discountedSkus 7102 = Some (Discount 3 50)"
    and a: "670 \<notin> set (map_keys discountedSkus)"
    by (simp_all add: discountedSkus_entries map_get_def map_keys_def)
  have g1: "map_get ?m 1 = Some (Some (Discount 3 50))"
    and a3: "3 \<notin> set (map_keys ?m)"
    by (simp_all add: map_get_def map_keys_def)
  note T1 = genericMapGet_lookup [of "objects discountedSkus" 7102 "Some NO_DISCOUNT"]
  note T2 = genericMapGet_lookup [of ?m 1 None]
  note T3 = genericMapGet_lookup [of ?m 3 "Some NO_DISCOUNT"]
  have r1: "genericMapGet (objects discountedSkus) (Some NO_DISCOUNT) 7102
              = Some (Discount 3 50)"
    using T1 [THEN conjunct2, THEN conjunct2, THEN conjunct2, rule_format,
              of discountedSkus NO_DISCOUNT, THEN conjunct1, rule_format, OF g] .
  have r2: "genericMapGet (objects discountedSkus) (Some NO_DISCOUNT) 670 = Some NO_DISCOUNT"
    using genericMapGet_lookup [of "objects discountedSkus" 670 "Some NO_DISCOUNT",
              THEN conjunct2, THEN conjunct2, THEN conjunct2, rule_format,
              of discountedSkus NO_DISCOUNT, THEN conjunct2, rule_format, OF a] .
  have r3: "genericMapGet ?m None 1 = Some (Discount 3 50)"
    using T2 [THEN conjunct1, rule_format, OF g1] .
  have r4: "genericMapGet ?m (Some NO_DISCOUNT) 3 = Some NO_DISCOUNT"
    using T3 [THEN conjunct2, THEN conjunct2, THEN conjunct1, rule_format, OF a3] .
  show ?thesis using g a g1 a3 r1 r2 r3 r4 by simp
qed

text \<open>
  C6 as stated, for every registry map, fails on a key that is present and stores
  \<open>undefined\<close>: the lookup returns the fallback value, not the stored value.
\<close>

theorem genericMapGet_undefined_value_counterexample:
  "1 \<in> set (map_keys [(1::int, None :: Discount option)]) \<and>
   map_get [(1::int, None :: Discount option)] 1 = Some None \<and>
   genericMapGet [(1::int, None)] (Some NO_DISCOUNT) 1 = Some NO_DISCOUNT"
  by (simp add: map_keys_def map_get_def genericMapGet_def map_get_value_def)

text \<open>
  C7: two baskets that are permutations of each other, aggregated with the same
  catalog and discount table, give bills with the same line under every SKU, hence the
  same quantity and the same price per SKU; the bills hold the same lines (in a
  possibly different order).
\<close>

theorem permuted_basket_same_lines:
  "mset bskt' = mset bskt \<Longrightarrow>
     (\<forall>s. map_get (billMap stock ds bskt') s = map_get (billMap stock ds bskt) s) \<and>
     (\<forall>s. map_option BillItem.qty (map_get (billMap stock ds bskt') s) =
          map_option BillItem.qty (map_get (billMap stock ds bskt) s)) \<and>
     (\<forall>s. map_option price (map_get (billMap stock ds bskt') s) =
          map_option price (map_get (billMap stock ds bskt) s)) \<and>
     mset (billMap stock ds bskt') = mset (billMap stock ds bskt)"
proof -
  assume m: "mset bskt' = mset bskt"
  then have s: "set bskt' = set bskt" by (rule mset_eq_setD)
  have c: "count_list bskt' k = count_list bskt k" for k
    using m by (rule count_list_mset)
  have g: "map_get (billMap stock ds bskt') k = map_get (billMap stock ds bskt) k" for k
    by (simp add: billMap_get s c)
  let ?line = "\<lambda>k. (k, BillItem (int (count_list bskt k)) (readItem stock k) (readDiscount ds k))"
  have "set (firstOccurrences (filter (kept stock) bskt'))
      = set (firstOccurrences (filter (kept stock) bskt))"
    by (simp add: set_firstOccurrences s)
  then have k: "mset (firstOccurrences (filter (kept stock) bskt'))
      = mset (firstOccurrences (filter (kept stock) bskt))"
    by (simp add: set_eq_iff_mset_eq_distinct [symmetric] distinct_firstOccurrences)
  have b: "mset (billMap stock ds bskt') = mset (billMap stock ds bskt)"
    unfolding billMap_eq c mset_map k ..
  show ?thesis using g b by simp
qed

theorem permuted_basket_same_lines_witness:
  "mset [7102, 670, 7102, 670, 7102] = mset [670, 670, 7102, 7102, 7102 :: int] \<and>
   map_get (billMap stockList discountedSkus [7102, 670, 7102, 670, 7102]) 7102 =
     map_get (billMap stockList discountedSkus [670, 670, 7102, 7102, 7102]) 7102 \<and>
   mset (billMap stockList discountedSkus [7102, 670, 7102, 670, 7102]) =
     mset (billMap stockList discountedSkus [670, 670, 7102, 7102, 7102])"
proof -
  have m: "mset [7102, 670, 7102, 670, 7102] = mset [670, 670, 7102, 7102, 7102 :: int]"
    by (simp add: add.commute)
  show ?thesis
    using permuted_basket_same_lines [OF m, of stockList discountedSkus] m by blast
qed

text \<open>
  C8: the no-discount sentinel has threshold \<open>1\<close>, every entry of the discount table
  of the source has a threshold of at least \<open>1\<close>, and so has every rule that
  \<open>readDiscount\<close> returns. Hence every line of a bill aggregated with this table, from
  any catalog and basket, has a threshold of at least \<open>1\<close>, and the quotient in
  \<open>calcDiscount\<close> is finite: it is not a division by zero. The discount and the price
  of such a line are finite as long as \<open>250 * q + \<bar>q * u\<bar>\<close> is below \<open>2 ^ 53\<close> for its
  quantity \<open>q\<close> and unit price \<open>u\<close>.
\<close>

theorem discount_threshold_positive:
  "Discount.qty NO_DISCOUNT = 1 \<and>
   (\<forall>e \<in> set discountedSkus. 1 \<le> Discount.qty (snd e)) \<and>
   (\<forall>sku. 1 \<le> Discount.qty (readDiscount discountedSkus sku)) \<and>
   (\<forall>l \<in> set (billArray (billMap stock discountedSkus bskt)).
      1 \<le> Discount.qty (discount l) \<and>
      js_div (BillItem.qty l) (Discount.qty (discount l)) \<noteq> None \<and>
      (250 * BillItem.qty l + \<bar>BillItem.qty l * unitPrice (item l)\<bar> < 2 ^ 53 \<longrightarrow>
         calcDiscount (BillItem.qty l) (Discount.qty (discount l)) (amount (discount l)) \<noteq> None \<and>
         price l \<noteq> None))"
proof -
  have n: "Discount.qty NO_DISCOUNT = 1"
    by (simp add: NO_DISCOUNT_def Discount_def)
  have e: "\<forall>e \<in> set discountedSkus. 1 \<le> Discount.qty (snd e)"
    by (simp add: discountedSkus_entries Discount_def)
  have l: "1 \<le> Discount.qty (discount l) \<and>
      js_div (BillItem.qty l) (Discount.qty (discount l)) \<noteq> None \<and>
      (250 * BillItem.qty l + \<bar>BillItem.qty l * unitPrice (item l)\<bar> < 2 ^ 53 \<longrightarrow>
         calcDiscount (BillItem.qty l) (Discount.qty (discount l)) (amount (discount l)) \<noteq> None \<and>
         price l \<noteq> None)"
    if "l \<in> set (billArray (billMap stock discountedSkus bskt))" for l
  proof -
    from that obtain s where d: "discount l = readDiscount discountedSkus s"
      and q: "0 \<le> BillItem.qty l"
      by (auto simp: billArray_def map_values_def billMap_eq BillItem_def)
    have t1: "1 \<le> Discount.qty (discount l)" and t3: "Discount.qty (discount l) \<le> 3"
      and a0: "0 \<le> amount (discount l)" and a250: "amount (discount l) \<le> 250"
      unfolding d by (rule readDiscount_source)+
    have nz: "js_div (BillItem.qty l) (Discount.qty (discount l)) \<noteq> None"
      using t1 by (simp add: js_div_None_iff)
    have fin: "calcDiscount (BillItem.qty l) (Discount.qty (discount l)) (amount (discount l))
                 \<noteq> None \<and> price l \<noteq> None"
      if b: "250 * BillItem.qty l + \<bar>BillItem.qty l * unitPrice (item l)\<bar> < 2 ^ 53"
    proof -
      let ?q = "BillItem.qty l" and ?t = "Discount.qty (discount l)"
      let ?a = "amount (discount l)"
      have f0: "0 \<le> ?q div ?t" using q t1 by (simp add: pos_imp_zdiv_nonneg_iff)
      have "?q div ?t * ?t + ?q mod ?t = ?q" by simp
      moreover have "0 \<le> ?q mod ?t" using t1 by simp
      moreover have "?q div ?t * 1 \<le> ?q div ?t * ?t"
        using f0 t1 by (intro mult_left_mono) simp_all
      ultimately have "?q div ?t \<le> ?q" by linarith
      with f0 a0 a250 q have "?q div ?t * ?a \<le> ?q * 250"
        by (intro mult_mono) simp_all
      moreover have d0: "0 \<le> ?q div ?t * ?a" using f0 a0 by simp
      ultimately have db: "\<bar>?q div ?t * ?a\<bar> \<le> 250 * ?q" by simp
      have qb: "?q < 2 ^ 53" using b q by linarith
      have tb: "?t < 2 ^ 53" using t3 by simp
      have b1: "\<bar>?q div ?t * ?a\<bar> < 2 ^ 53" using db b by linarith
      have b2: "\<bar>?q * unitPrice (item l)\<bar> < 2 ^ 53" using b q by linarith
      have b3: "\<bar>?q * unitPrice (item l) - ?q div ?t * ?a\<bar> < 2 ^ 53"
        using db b by linarith
      have "calcDiscount ?q ?t ?a = Some (?q div ?t * ?a)"
        using q qb t1 tb b1 by (rule calcDiscount_exact)
      moreover have "price l = Some (?q * unitPrice (item l) - ?q div ?t * ?a)"
        using q qb t1 tb b1 b2 b3 by (rule price_exact)
      ultimately show ?thesis by simp
    qed
    show ?thesis using t1 nz fin by blast
  qed
  show ?thesis using n e l readDiscount_source(1) by blast
qed

theorem discount_threshold_positive_witness:
  "BillItem 3 (Item ''Pasta Sauce (500g jar)'' 184) (Discount 3 50)
     \<in> set (billArray (billMap stockList discountedSkus basket)) \<and>
   (1::int) \<le> 3 \<and>
   js_div 3 3 \<noteq> None \<and>
   250 * 3 + \<bar>3 * 184\<bar> < (2 ^ 53 :: int) \<and>
   calcDiscount 3 3 50 \<noteq> None \<and>
   price (BillItem 3 (Item ''Pasta Sauce (500g jar)'' 184) (Discount 3 50)) \<noteq> None \<and>
   (7102, Discount 3 50) \<in> set discountedSkus"
proof -
  let ?l = "BillItem 3 (Item ''Pasta Sauce (500g jar)'' 184) (Discount 3 50)"
  have m: "?l \<in> set (billArray (billMap stockList discountedSkus basket))"
    by (simp add: source_bill billArray_def map_values_def)
  have f: "BillItem.qty ?l = 3" "Discount.qty (discount ?l) = 3" "amount (discount ?l) = 50"
    "unitPrice (item ?l) = 184"
    by (simp_all add: BillItem_def Discount_def Item_def)
  have e: "(7102, Discount 3 50) \<in> set discountedSkus"
    by (simp add: discountedSkus_entries)
  have b: "250 * BillItem.qty ?l + \<bar>BillItem.qty ?l * unitPrice (item ?l)\<bar> < 2 ^ 53"
    by (simp add: f)
  have "js_div (BillItem.qty ?l) (Discount.qty (discount ?l)) \<noteq> None \<and>
        calcDiscount (BillItem.qty ?l) (Discount.qty (discount ?l)) (amount (discount ?l))
          \<noteq> None \<and> price ?l \<noteq> None"
    using discount_threshold_positive [of stockList basket] m b by blast
  then show ?thesis using m e by (simp add: f)
qed

text \<open>
  C9, as amended: the bill of a basket has exactly one entry per distinct SKU of the
  basket that the aggregator keeps, which are the SKUs that the catalog holds with a
  description other than the marker text \<open>Unknown SKU\<close>, and iterating the bill yields
  the entries in the order in which these SKUs first occur in the basket. A step for a
  SKU that the bill already holds leaves the order of the keys as it is.
\<close>

theorem billMap_first_occurrence_order:
  "distinct (map_keys (billMap stock ds bskt)) \<and>
   set (map_keys (billMap stock ds bskt)) = {s \<in> set bskt. kept stock s} \<and>
   map_keys (billMap stock ds bskt) = firstOccurrences (filter (kept stock) bskt) \<and>
   billArray (billMap stock ds bskt) =
     map (\<lambda>s. BillItem (int (count_list bskt s)) (readItem stock s) (readDiscount ds s))
       (firstOccurrences (filter (kept stock) bskt)) \<and>
   (\<forall>acc s. s \<in> set (map_keys acc) \<longrightarrow>
      map_keys (addItemToBill stock ds acc s) = map_keys acc) \<and>
   (\<forall>s. kept stock s \<longleftrightarrow> (\<exists>it. map_get stock s = Some it \<and> desc it \<noteq> UNKNOWN_SKU_TXT))"
proof -
  have "set (map_keys (billMap stock ds bskt)) = {s \<in> set bskt. kept stock s}"
    by (auto simp: billMap_keys set_firstOccurrences)
  moreover have "billArray (billMap stock ds bskt) =
     map (\<lambda>s. BillItem (int (count_list bskt s)) (readItem stock s) (readDiscount ds s))
       (firstOccurrences (filter (kept stock) bskt))"
    unfolding billArray_def map_values_def billMap_eq by (simp add: comp_def)
  ultimately show ?thesis
    using distinct_billMap [of stock ds bskt] billMap_keys [of stock ds bskt]
      map_keys_addItemToBill_present [of _ _ stock ds] kept_iff [of stock]
    by simp
qed

theorem billMap_first_occurrence_order_witness:
  "map_keys (billMap stockList discountedSkus basket) =
     [670, 3317, 643, 1234, 5907, 6034, 5671, 7102, 1094, 1373, 6469] \<and>
   firstOccurrences (filter (kept stockList) basket) =
     [670, 3317, 643, 1234, 5907, 6034, 5671, 7102, 1094, 1373, 6469] \<and>
   670 \<in> set (map_keys [(670::int, BillItem 1 (Item ''Apples (pack of 5)'' 194) NO_DISCOUNT),
                        (3317, BillItem 1 (Item ''Oranges (pack of 5)'' 150) NO_DISCOUNT)]) \<and>
   map_keys (addItemToBill stockList discountedSkus
      [(670, BillItem 1 (Item ''Apples (pack of 5)'' 194) NO_DISCOUNT),
       (3317, BillItem 1 (Item ''Oranges (pack of 5)'' 150) NO_DISCOUNT)] 670) = [670, 3317]"
proof -
  let ?acc = "[(670::int, BillItem 1 (Item ''Apples (pack of 5)'' 194) NO_DISCOUNT),
               (3317, BillItem 1 (Item ''Oranges (pack of 5)'' 150) NO_DISCOUNT)]"
  have k: "map_keys (billMap stockList discountedSkus basket) =
     [670, 3317, 643, 1234, 5907, 6034, 5671, 7102, 1094, 1373, 6469]"
    by (simp add: source_bill map_keys_def)
  have a: "map_keys ?acc = [670, 3317]" by (simp add: map_keys_def)
  then have p: "670 \<in> set (map_keys ?acc)" by simp
  note T = billMap_first_occurrence_order [of stockList discountedSkus basket]
  have f: "firstOccurrences (filter (kept stockList) basket) =
     [670, 3317, 643, 1234, 5907, 6034, 5671, 7102, 1094, 1373, 6469]"
    using T k by simp
  have u: "map_keys (addItemToBill stockList discountedSkus ?acc 670) = map_keys ?acc"
    using T p by blast
  show ?thesis using k f p u a by simp
qed

text \<open>
  C9 as stated, with one entry per distinct SKU of the basket that the catalog holds,
  fails on a catalog entry whose description is the marker text: SKU \<open>1\<close> is in the
  catalog and in the basket, and the bill has the single key \<open>2\<close>.
\<close>

theorem marker_catalog_order_counterexample:
  "1 \<in> set (map_keys (new_Map [(1::int, Item ''Unknown SKU'' 5), (2, Item ''Mango'' 75)])) \<and>
   1 \<in> set [1, 2 :: int] \<and>
   map_keys (billMap (new_Map [(1::int, Item ''Unknown SKU'' 5), (2, Item ''Mango'' 75)])
               discountedSkus [1, 2]) = [2]"
  by (simp add: new_Map_def map_keys_def map_get_def billMap_def addItemToBill_def
      readItem_get readDiscount_get updateQty_def Item_def UNKNOWN_SKU_TXT_def
      discountedSkus_entries)

text \<open>
  C10: the aggregator drops a SKU by the description of the item it looked up. A SKU
  that the catalog holds with the description \<open>Unknown SKU\<close> is dropped at every
  occurrence, although the catalog has it and its item need not be the sentinel: the
  step returns the accumulator, the bill has no line for the SKU and is the bill of the
  basket without it.
\<close>

theorem marker_description_dropped:
  "map_get stock s = Some it \<Longrightarrow> desc it = UNKNOWN_SKU_TXT \<Longrightarrow>
     s \<in> set (map_keys stock) \<and>
     (\<forall>acc. addItemToBill stock ds acc s = acc) \<and>
     linesFor (billMap stock ds bskt) s = [] \<and>
     billMap stock ds bskt = billMap stock ds (removeAll s bskt)"
proof -
  assume it: "map_get stock s = Some it" and d: "desc it = UNKNOWN_SKU_TXT"
  then have nk: "\<not> kept stock s" by (simp add: kept_iff)
  have p: "s \<in> set (map_keys stock)"
    using it map_get_None_iff [of stock s] by simp
  have "billMap stock ds (filter (\<lambda>x. x \<noteq> s) bskt) = billMap stock ds bskt"
    by (rule billMap_filter) (simp add: nk)
  moreover have "removeAll s bskt = filter (\<lambda>x. x \<noteq> s) bskt"
    by (induction bskt) auto
  ultimately show ?thesis
    using nk p by (simp add: addItemToBill_dropped linesFor_billMap)
qed

theorem marker_description_dropped_witness:
  "map_get (new_Map [(1::int, Item ''Unknown SKU'' 5), (2, Item ''Mango'' 75)]) 1
     = Some (Item ''Unknown SKU'' 5) \<and>
   desc (Item ''Unknown SKU'' 5) = UNKNOWN_SKU_TXT \<and>
   Item ''Unknown SKU'' 5 \<noteq> UNKNOWN_SKU \<and>
   linesFor (billMap (new_Map [(1::int, Item ''Unknown SKU'' 5), (2, Item ''Mango'' 75)])
               discountedSkus [1, 2, 1]) 1 = [] \<and>
   billMap (new_Map [(1::int, Item ''Unknown SKU'' 5), (2, Item ''Mango'' 75)])
               discountedSkus [1, 2, 1]
     = billMap (new_Map [(1::int, Item ''Unknown SKU'' 5), (2, Item ''Mango'' 75)])
               discountedSkus [2]"
proof -
  let ?stock = "new_Map [(1::int, Item ''Unknown SKU'' 5), (2, Item ''Mango'' 75)]"
  have g: "map_get ?stock 1 = Some (Item ''Unknown SKU'' 5)"
    by (simp add: new_Map_def map_get_def)
  have d: "desc (Item ''Unknown SKU'' 5) = UNKNOWN_SKU_TXT"
    by (simp add: Item_def UNKNOWN_SKU_TXT_def)
  have n: "Item ''Unknown SKU'' 5 \<noteq> UNKNOWN_SKU"
    by (simp add: Item_def UNKNOWN_SKU_def)
  have r: "removeAll 1 [1, 2, 1 :: int] = [2]" by simp
  show ?thesis
    using marker_description_dropped [OF g d, of discountedSkus "[1, 2, 1]"] g d n
    unfolding r by blast
qed

end
